theory Spec2Isabelle
  imports Main "HOL-Library.Sublist" "HOL-Library.Multiset"
begin

section \<open>JavaScript strings and the Node path functions the gulpfile calls\<close>

text \<open>
  A JavaScript string is modelled as a \<^typ>\<open>string\<close>: a list of code units. The gulpfile and
  the path functions only compare units with \<open>_\<close>, \<open>.\<close> and \<open>/\<close> and strings with literals, take
  lengths and slices, and concatenate; which other units there are plays no role.
\<close>

definition startsWith :: "string \<Rightarrow> string \<Rightarrow> bool" where
  "startsWith s p = (take (length p) s = p)"

text \<open>
  \<^verbatim>\<open>String.prototype.slice(start, end)\<close>: a negative index counts from the end, both indices are
  clamped to the string, and an empty string results when the range is empty.
\<close>

definition slice :: "string \<Rightarrow> int \<Rightarrow> int \<Rightarrow> string" where
  "slice s start fin =
     (let len = int (length s);
          from = (if start < 0 then max (len + start) 0 else min start len);
          to = (if fin < 0 then max (len + fin) 0 else min fin len)
      in take (nat (to - from)) (drop (nat from) s))"

text \<open>
  \<^verbatim>\<open>path.extname\<close> is Node library code (lib/path.js, the POSIX variant), not part of the
  repository. The model follows its loop: the path is scanned from its last unit to its first,
  \<open>extname_loop path n st\<close> having the units at indices \<open>n - 1, ..., 0\<close> still to visit.
  \<^verbatim>\<open>
  let startDot = -1; let startPart = 0; let end = -1;
  let matchedSlash = true; let preDotState = 0;
  for (let i = path.length - 1; i >= 0; --i) {
    const code = path.charCodeAt(i);
    if (code === CHAR_FORWARD_SLASH) {
      if (!matchedSlash) { startPart = i + 1; break; }
      continue;
    }
    if (end === -1) { matchedSlash = false; end = i + 1; }
    if (code === CHAR_DOT) {
      if (startDot === -1) startDot = i;
      else if (preDotState !== 1) preDotState = 1;
    } else if (startDot !== -1) {
      preDotState = -1;
    }
  }
  if (startDot === -1 || end === -1 || preDotState === 0 ||
      (preDotState === 1 && startDot === end - 1 && startDot === startPart + 1))
    return '';
  return path.slice(startDot, end);
  \<close>
\<close>

record ext_state =
  startDot :: int
  startPart :: int
  endPos :: int
  matchedSlash :: bool
  preDotState :: int

definition ext_init :: ext_state where
  "ext_init = \<lparr>startDot = -1, startPart = 0, endPos = -1, matchedSlash = True, preDotState = 0\<rparr>"

definition ext_step :: "char \<Rightarrow> nat \<Rightarrow> ext_state \<Rightarrow> ext_state" where
  "ext_step code i st =
     (let st1 = (if endPos st = -1 then st\<lparr>matchedSlash := False, endPos := int i + 1\<rparr> else st)
      in if code = CHR ''.'' then
           (if startDot st1 = -1 then st1\<lparr>startDot := int i\<rparr>
            else if preDotState st1 \<noteq> 1 then st1\<lparr>preDotState := 1\<rparr>
            else st1)
         else if startDot st1 \<noteq> -1 then st1\<lparr>preDotState := -1\<rparr>
         else st1)"

fun extname_loop :: "string \<Rightarrow> nat \<Rightarrow> ext_state \<Rightarrow> ext_state" where
  "extname_loop path 0 st = st"
| "extname_loop path (Suc i) st =
     (if path ! i = CHR ''/'' then
        (if \<not> matchedSlash st then st\<lparr>startPart := int i + 1\<rparr>
         else extname_loop path i st)
      else extname_loop path i (ext_step (path ! i) i st))"

definition extname :: "string \<Rightarrow> string" where
  "extname path =
     (let st = extname_loop path (length path) ext_init
      in if startDot st = -1 \<or> endPos st = -1 \<or> preDotState st = 0 \<or>
            (preDotState st = 1 \<and> startDot st = endPos st - 1 \<and> startDot st = startPart st + 1)
         then ''''
         else slice path (startDot st) (endPos st))"

text \<open>
  \<^verbatim>\<open>path.join\<close> (Node library code, POSIX variant) for two arguments: the non-empty arguments
  are joined with \<open>/\<close> and the result is normalised. Normalisation is modelled on the
  segments between separators: empty segments and \<open>.\<close> are dropped, \<open>..\<close> removes the segment
  before it (or is kept, in a relative path that has none).
\<close>

fun split_sep :: "string \<Rightarrow> string list" where
  "split_sep [] = [[]]"
| "split_sep (c # cs) =
     (if c = CHR ''/'' then [] # split_sep cs
      else (case split_sep cs of [] \<Rightarrow> [[c]] | s # ss \<Rightarrow> (c # s) # ss))"

fun normalizeString :: "bool \<Rightarrow> string list \<Rightarrow> string list \<Rightarrow> string list" where
  "normalizeString allowAboveRoot [] res = res"
| "normalizeString allowAboveRoot (seg # rest) res =
     (if seg = [] \<or> seg = ''.'' then normalizeString allowAboveRoot rest res
      else if seg = ''..'' then
        (if res \<noteq> [] \<and> last res \<noteq> ''..'' then normalizeString allowAboveRoot rest (butlast res)
         else if allowAboveRoot then normalizeString allowAboveRoot rest (res @ [seg])
         else normalizeString allowAboveRoot rest res)
      else normalizeString allowAboveRoot rest (res @ [seg]))"

fun join_sep :: "string list \<Rightarrow> string" where
  "join_sep [] = []"
| "join_sep [s] = s"
| "join_sep (s # t # ss) = s @ ''/'' @ join_sep (t # ss)"

definition normalize :: "string \<Rightarrow> string" where
  "normalize path =
     (if path = [] then ''.''
      else
        let isAbsolute = (hd path = CHR ''/'');
            trailingSeparator = (last path = CHR ''/'');
            p = join_sep (normalizeString (\<not> isAbsolute) (split_sep path) [])
        in if p = [] then (if isAbsolute then ''/'' else if trailingSeparator then ''./'' else ''.'')
           else (if isAbsolute then ''/'' else []) @ p @ (if trailingSeparator then ''/'' else []))"

definition path_join :: "string \<Rightarrow> string \<Rightarrow> string" where
  "path_join a b =
     (if a = [] \<and> b = [] then ''.''
      else if a = [] then normalize b
      else if b = [] then normalize a
      else normalize (a @ ''/'' @ b))"

section \<open>The style aggregator\<close>

definition scssExt :: string where
  "scssExt = ''.scss''"

text \<open>
  \<^verbatim>\<open>
  buildScssString = (filename) => {
      return '@import "' + filename.slice(1, (filename.length-scssExt.length)) + '";\n';
  }
  \<close>
\<close>

definition buildScssString :: "string \<Rightarrow> string" where
  \<open>buildScssString filename =
     ''@import "'' @ slice filename 1 (int (length filename) - int (length scssExt)) @ ''";\<newline>''\<close>

text \<open>
  The loop of \<^verbatim>\<open>generateDesignFile\<close> over the names \<^verbatim>\<open>fs.readdirSync\<close> returned, with the
  accumulated \<^verbatim>\<open>content\<close>:
  \<^verbatim>\<open>
  for (let file of fs.readdirSync(stylesdir) ) {
      if (file.startsWith('_') && path.extname(file) === scssExt ) {
          if (file !== '_common.scss') {
              content += buildScssString(file);
          } else {
              content = buildScssString(file) + content;
          }
      }
  }
  \<close>
\<close>

fun designLoop :: "string list \<Rightarrow> string \<Rightarrow> string" where
  "designLoop [] content = content"
| "designLoop (file # rest) content =
     (if startsWith file ''_'' \<and> extname file = scssExt then
        (if file \<noteq> ''_common.scss'' then designLoop rest (content @ buildScssString file)
         else designLoop rest (buildScssString file @ content))
      else designLoop rest content)"

definition banner :: string where
  "banner = ''/* \<newline> * This file has been generated while building the components package. \<newline> * PLEASE DO NOT MODIFY THIS FILE BY HAND. \<newline> */\<newline>''"

definition designContent :: "string list \<Rightarrow> string" where
  "designContent names = banner @ designLoop names ''''"

section \<open>The world the tasks run in\<close>

text \<open>
  Errors are values. \<open>Error m\<close> is \<^verbatim>\<open>new Error(m)\<close>, thrown by the gulpfile itself; the others
  are raised by the calls it makes and pass through it unmodified.
\<close>

datatype error =
    Error string
  | ENOENT string
  | EEXIST string
  | EACCES string
  | Rejected string

text \<open>
  Every call that reaches outside the process is recorded, in order: the file system calls
  with their arguments as the gulpfile passes them, each line written to the console, and
  each archive handed to \<^verbatim>\<open>gulp.dest\<close> (destination, archive name, entries).
\<close>

datatype event =
    ReadDir string
  | ReadFile string
  | WriteFile string string
  | MkDir string
  | Log string
  | Zip string string "string list"

text \<open>
  \<^verbatim>\<open>UglifyJS.minify\<close> returns an object with either \<^verbatim>\<open>error\<close> (an error object, of which the
  gulpfile reads \<^verbatim>\<open>message\<close>) or \<^verbatim>\<open>code\<close>.
\<close>

record minify_result =
  result_error :: "string option"
  result_code :: string

text \<open>
  The state of a run. \<open>dirs\<close> and \<open>files\<close> are the file system, keyed by located path:
  the listing of each directory in the order the system enumerates it, and the content of
  each file. \<open>denied\<close> holds the paths at which creating or writing fails. \<open>tree\<close> lists the
  paths below the working directory that a traversal by \<^verbatim>\<open>gulp.src\<close> finds, relative to it.
  \<open>manifest\<close> is the outcome of
  \<^verbatim>\<open>require('./components/components-definition.json').name\<close>: an error when the file cannot
  be loaded, \<open>None\<close> when it has no name (\<^verbatim>\<open>undefined\<close>); names that are not strings are not
  modelled. \<open>minify\<close>, \<open>sass\<close> and \<open>validateFolder\<close> are the three libraries: the minifier, the
  style compiler (its error message or the compiled stylesheet) and the validator (its
  verdict, or the error it rejects with, and the diagnostics it prints).
\<close>

record world =
  dirname :: string
  cwd :: string
  dirs :: "string \<Rightarrow> string list option"
  files :: "string \<Rightarrow> string option"
  denied :: "string \<Rightarrow> bool"
  tree :: "string list"
  manifest :: "error + string option"
  minify :: "string \<Rightarrow> minify_result"
  sass :: "string \<Rightarrow> string + string"
  validateFolder :: "(string \<Rightarrow> string option) \<Rightarrow> string \<Rightarrow> (error + bool) \<times> string list"
  trace :: "event list"

type_synonym task = "world \<Rightarrow> (error + unit) \<times> world"

definition emit :: "event \<Rightarrow> world \<Rightarrow> world" where
  "emit e w = w\<lparr>trace := trace w @ [e]\<rparr>"

text \<open>The file a path names: a relative path is taken from the working directory.\<close>

definition locate :: "world \<Rightarrow> string \<Rightarrow> string" where
  "locate w p = (if startsWith p ''/'' then p else path_join (cwd w) p)"

definition readdirSync :: "world \<Rightarrow> string \<Rightarrow> (error + string list) \<times> world" where
  "readdirSync w p =
     (case dirs w (locate w p) of
        None \<Rightarrow> (Inl (ENOENT p), emit (ReadDir p) w)
      | Some names \<Rightarrow> (Inr names, emit (ReadDir p) w))"

definition readFileAsync :: "world \<Rightarrow> string \<Rightarrow> (error + string) \<times> world" where
  "readFileAsync w p =
     (case files w (locate w p) of
        None \<Rightarrow> (Inl (ENOENT p), emit (ReadFile p) w)
      | Some buf \<Rightarrow> (Inr buf, emit (ReadFile p) w))"

definition writeFileAsync :: "world \<Rightarrow> string \<Rightarrow> string \<Rightarrow> (error + unit) \<times> world" where
  "writeFileAsync w p data =
     (if denied w (locate w p) then (Inl (EACCES p), emit (WriteFile p data) w)
      else (Inr (), (emit (WriteFile p data) w)\<lparr>files := (files w)(locate w p \<mapsto> data)\<rparr>))"

definition existsSync :: "world \<Rightarrow> string \<Rightarrow> bool" where
  "existsSync w p = (dirs w (locate w p) \<noteq> None \<or> files w (locate w p) \<noteq> None)"

definition mkdirSync :: "world \<Rightarrow> string \<Rightarrow> (error + unit) \<times> world" where
  "mkdirSync w p =
     (if existsSync w p then (Inl (EEXIST p), emit (MkDir p) w)
      else if denied w (locate w p) then (Inl (EACCES p), emit (MkDir p) w)
      else (Inr (), (emit (MkDir p) w)\<lparr>dirs := (dirs w)(locate w p \<mapsto> [])\<rparr>))"

section \<open>Style aggregation and compilation\<close>

definition stylesdir :: "world \<Rightarrow> string" where
  "stylesdir w = path_join (dirname w) ''./components/styles''"

definition designPath :: "world \<Rightarrow> string" where
  "designPath w = path_join (stylesdir w) ''design.scss''"

text \<open>
  \<^verbatim>\<open>
  async function generateDesignFile() {
      let stylesdir = path.join(__dirname, './components/styles');
      let content = '';
      for (let file of fs.readdirSync(stylesdir) ) { ... }
      content = '/* \n * This file has been generated ... \n */\n' + content;
      await writeFileAsync(path.join(stylesdir, 'design.scss'), content);
  }
  \<close>
\<close>

definition generateDesignFile :: task where
  "generateDesignFile w =
     (case readdirSync w (stylesdir w) of
        (Inl e, w1) \<Rightarrow> (Inl e, w1)
      | (Inr names, w1) \<Rightarrow>
          writeFileAsync w1 (path_join (stylesdir w) ''design.scss'') (banner @ designLoop names ''''))"

text \<open>
  \<^verbatim>\<open>
  async function compileDesignFile() {
      await generateDesignFile();
      return gulp.src('./components/styles/design.scss')
        .pipe(sass().on('error', sass.logError))
        .pipe(gulp.dest('./components/styles/'));
  }
  \<close>
  The stream is run to its end inside the task: the entry file is read, compiled, and the
  stylesheet written beside it. On a compile error the handler \<^verbatim>\<open>sass.logError\<close> prints the
  message and ends the stream, so nothing reaches \<^verbatim>\<open>gulp.dest\<close>.
\<close>

definition compileDesignFile :: task where
  "compileDesignFile w =
     (case generateDesignFile w of
        (Inl e, w1) \<Rightarrow> (Inl e, w1)
      | (Inr _, w1) \<Rightarrow>
          (case readFileAsync w1 ''./components/styles/design.scss'' of
             (Inl e, w2) \<Rightarrow> (Inl e, w2)
           | (Inr scss, w2) \<Rightarrow>
               (case sass w2 scss of
                  Inl message \<Rightarrow> (Inr (), emit (Log message) w2)
                | Inr css \<Rightarrow>
                    writeFileAsync w2 (path_join ''./components/styles/'' ''design.css'') css)))"

section \<open>The vendor script bundler\<close>

definition scriptsDir :: "world \<Rightarrow> string" where
  "scriptsDir w = path_join (dirname w) ''./scripts''"

definition scriptFiles :: "world \<Rightarrow> string list" where
  "scriptFiles w =
     [path_join (scriptsDir w) ''dpsHTMLGestureAPI.min.js'',
      path_join (scriptsDir w) ''jquery.js'',
      path_join (scriptsDir w) ''jquery.mobile.options.js'',
      path_join (scriptsDir w) ''jquery.mobile.js'',
      path_join (scriptsDir w) ''fullscreen.support.js'',
      path_join (scriptsDir w) ''jssor.js'',
      path_join (scriptsDir w) ''jssor.slider.js'',
      path_join (scriptsDir w) ''slideshow.js'',
      path_join (scriptsDir w) ''heroes.js'',
      path_join (scriptsDir w) ''video.js'']"

text \<open>
  The concatenation loop of \<^verbatim>\<open>generateVendorScript\<close>, with its index and accumulator:
  \<^verbatim>\<open>
  let content = '';
  for (let i = 0; i < scriptFiles.length; i++) {
      content += (await readFileAsync(scriptFiles[i])).toString() + '\n';
  }
  \<close>
\<close>

function concatLoop :: "string list \<Rightarrow> nat \<Rightarrow> string \<Rightarrow> world \<Rightarrow> (error + string) \<times> world" where
  "concatLoop scripts i content w =
     (if i < length scripts then
        (case readFileAsync w (scripts ! i) of
           (Inl e, w1) \<Rightarrow> (Inl e, w1)
         | (Inr buf, w1) \<Rightarrow> concatLoop scripts (i + 1) (content @ buf @ ''\<newline>'') w1)
      else (Inr content, w))"
  by pat_completeness auto
termination
  by (relation "measure (\<lambda>(scripts, i, content, w). length scripts - i)") auto

declare concatLoop.simps [simp del]

text \<open>
  \<^verbatim>\<open>generateVendorScript\<close>, with the list it bundles as a parameter (in the gulpfile the
  module constant \<^verbatim>\<open>scriptFiles\<close>):
  \<^verbatim>\<open>
  const result = UglifyJS.minify(content);
  if (result.error) { throw new Error(result.error.message); }
  const targetFolder = './components/scripts';
  if (!fs.existsSync(targetFolder)){ fs.mkdirSync(targetFolder); }
  await writeFileAsync(path.join(targetFolder, 'vendor.js'), result.code);
  \<close>
\<close>

definition generateVendorScriptFrom :: "string list \<Rightarrow> task" where
  "generateVendorScriptFrom scripts w =
     (case concatLoop scripts 0 '''' w of
        (Inl e, w1) \<Rightarrow> (Inl e, w1)
      | (Inr content, w1) \<Rightarrow>
          (let result = minify w1 content in
           case result_error result of
             Some message \<Rightarrow> (Inl (Error message), w1)
           | None \<Rightarrow>
               (let targetFolder = ''./components/scripts'' in
                case (if \<not> existsSync w1 targetFolder then mkdirSync w1 targetFolder
                      else (Inr (), w1)) of
                  (Inl e, w2) \<Rightarrow> (Inl e, w2)
                | (Inr _, w2) \<Rightarrow>
                    writeFileAsync w2 (path_join targetFolder ''vendor.js'') (result_code result))))"

definition generateVendorScript :: task where
  "generateVendorScript w = generateVendorScriptFrom (scriptFiles w) w"

section \<open>Validation\<close>

text \<open>
  \<^verbatim>\<open>componentsValidator.validateFolder(folder)\<close>: the validator reads the folder, prints its
  diagnostics and resolves to its verdict (or rejects).
\<close>

definition componentsValidator :: "world \<Rightarrow> string \<Rightarrow> (error + bool) \<times> world" where
  "componentsValidator w folder =
     (case validateFolder w (files w) folder of
        (r, diagnostics) \<Rightarrow> (r, w\<lparr>trace := trace w @ map Log diagnostics\<rparr>))"

text \<open>
  \<^verbatim>\<open>
  async function validateNoBail() {
      await componentsValidator.validateFolder('./components');
  }
  async function validate() {
      const valid = await componentsValidator.validateFolder('./components');
      if (!valid) { throw new Error('Package failed validation. See errors above.'); }
  }
  \<close>
\<close>

definition validateNoBail :: task where
  "validateNoBail w =
     (case componentsValidator w ''./components'' of
        (Inl e, w1) \<Rightarrow> (Inl e, w1)
      | (Inr _, w1) \<Rightarrow> (Inr (), w1))"

definition validate :: task where
  "validate w =
     (case componentsValidator w ''./components'' of
        (Inl e, w1) \<Rightarrow> (Inl e, w1)
      | (Inr valid, w1) \<Rightarrow>
          (if \<not> valid then (Inl (Error ''Package failed validation. See errors above.''), w1)
           else (Inr (), w1)))"

section \<open>The archive builder\<close>

text \<open>
  The globs of the gulpfile consist of whole segments: a literal name, \<open>*\<close> (one segment of
  any name) and \<open>**\<close> (zero or more segments). Their meaning is that of the matcher behind
  \<^verbatim>\<open>gulp.src\<close>, library code outside the repository: unless \<open>dot\<close> is set, neither \<open>*\<close> nor \<open>**\<close>
  matches a segment that starts with a dot. A path is matched segment by segment.
\<close>

datatype glob_seg = Lit string | Star | GlobStar

definition glob_segs :: "string \<Rightarrow> glob_seg list" where
  "glob_segs g =
     map (\<lambda>s. if s = ''**'' then GlobStar else if s = ''*'' then Star else Lit s) (split_sep g)"

definition hidden :: "string \<Rightarrow> bool" where
  "hidden s = startsWith s ''.''"

fun glob_match :: "bool \<Rightarrow> glob_seg list \<Rightarrow> string list \<Rightarrow> bool" where
  "glob_match dot [] ss = (ss = [])"
| "glob_match dot (GlobStar # ps) ss =
     (glob_match dot ps ss \<or>
      (case ss of
         [] \<Rightarrow> False
       | s # rest \<Rightarrow> (dot \<or> \<not> hidden s) \<and> glob_match dot (GlobStar # ps) rest))"
| "glob_match dot (Star # ps) ss =
     (case ss of
        [] \<Rightarrow> False
      | s # rest \<Rightarrow> s \<noteq> [] \<and> (dot \<or> \<not> hidden s) \<and> glob_match dot ps rest)"
| "glob_match dot (Lit l # ps) ss =
     (case ss of
        [] \<Rightarrow> False
      | s # rest \<Rightarrow> s = l \<and> glob_match dot ps rest)"

text \<open>
  \<^verbatim>\<open>gulp.src(globs)\<close>: the paths of the tree that a positive glob matches and no negated glob
  (written with a leading \<open>!\<close>) matches, in the order of the traversal. Negated globs are
  matched with \<open>dot\<close> set.
\<close>

definition gulp_src :: "world \<Rightarrow> string list \<Rightarrow> string list" where
  "gulp_src w globs =
     (let positives = filter (\<lambda>g. \<not> startsWith g ''!'') globs;
          negatives = map (drop 1) (filter (\<lambda>g. startsWith g ''!'') globs)
      in filter
           (\<lambda>p. list_ex (\<lambda>g. glob_match False (glob_segs g) (split_sep p)) positives \<and>
                \<not> list_ex (\<lambda>g. glob_match True (glob_segs g) (split_sep p)) negatives)
           (tree w))"

text \<open>
  \<^verbatim>\<open>
  function buildComponentSetZip() {
      const name = require('./components/components-definition.json').name;
      return gulp.src(['components/**/*', '!components/**/tms-timestamp'])
          .pipe(zip(`${name}.zip`))
          .pipe(gulp.dest('dist'));
  }
  \<close>
  The zip plugin emits one archive of the paths piped into it, and none when there are no
  such paths; \<^verbatim>\<open>gulp.dest\<close> then writes the archive into the destination.
\<close>

definition buildComponentSetZip :: task where
  "buildComponentSetZip w =
     (case manifest w of
        Inl e \<Rightarrow> (Inl e, w)
      | Inr field \<Rightarrow>
          (let name = (case field of None \<Rightarrow> ''undefined'' | Some n \<Rightarrow> n);
               entries = gulp_src w [''components/**/*'', ''!components/**/tms-timestamp''];
               archive = name @ ''.zip''
           in if entries = [] then (Inr (), w)
              else if denied w (locate w (path_join ''dist'' archive))
                then (Inl (EACCES (path_join ''dist'' archive)), emit (Zip ''dist'' archive entries) w)
              else (Inr (), emit (Zip ''dist'' archive entries) w)))"

section \<open>The pipelines\<close>

text \<open>
  \<^verbatim>\<open>gulp.series\<close> runs its tasks in order and stops at the first that fails.
  \<^verbatim>\<open>gulp.parallel\<close> starts all its tasks and fails when one of them failed; the tasks are run
  one after the other here, in the order given (those of the gulpfile write to different
  paths).
\<close>

fun gulp_series :: "task list \<Rightarrow> task" where
  "gulp_series [] w = (Inr (), w)"
| "gulp_series (t # ts) w =
     (case t w of
        (Inl e, w1) \<Rightarrow> (Inl e, w1)
      | (Inr _, w1) \<Rightarrow> gulp_series ts w1)"

fun gulp_parallel :: "task list \<Rightarrow> task" where
  "gulp_parallel [] w = (Inr (), w)"
| "gulp_parallel (t # ts) w =
     (case t w of
        (r, w1) \<Rightarrow>
          (case gulp_parallel ts w1 of
             (rs, w2) \<Rightarrow> ((case r of Inl e \<Rightarrow> Inl e | Inr _ \<Rightarrow> rs), w2)))"

text \<open>
  \<^verbatim>\<open>
  function watch() {
      const watcher = gulp.watch('components/**/*', gulp.series(validateNoBail));
      watcher.on('ready', () => console.log('Watching for changes in components folder...'));
      return watcher;
  }
  \<close>
  A change is a path with its new content (\<open>None\<close>: the file is removed). The watcher runs
  its task once for every change to a path its glob matches; an error of the task is dropped
  (the gulpfile registers no error listener) and the watcher goes on. The run is modelled up
  to the last change of a finite list.
\<close>

type_synonym change = "string \<times> string option"

definition apply_change :: "change \<Rightarrow> world \<Rightarrow> world" where
  "apply_change c w = w\<lparr>files := (files w)(locate w (fst c) := snd c)\<rparr>"

definition watched :: "string \<Rightarrow> bool" where
  "watched p = glob_match False (glob_segs ''components/**/*'') (split_sep p)"

fun watch_loop :: "task \<Rightarrow> change list \<Rightarrow> world \<Rightarrow> world" where
  "watch_loop t [] w = w"
| "watch_loop t (c # cs) w =
     (let w1 = apply_change c w
      in if watched (fst c) then watch_loop t cs (snd (t w1)) else watch_loop t cs w1)"

definition watch :: "change list \<Rightarrow> task" where
  "watch changes w =
     (Inr (), watch_loop (gulp_series [validateNoBail]) changes
                (emit (Log ''Watching for changes in components folder...'') w))"

text \<open>
  \<^verbatim>\<open>
  const build = gulp.series(gulp.parallel(compileDesignFile, generateVendorScript),
                            validate, buildComponentSetZip);
  const dev = gulp.series(gulp.parallel(compileDesignFile, generateVendorScript), watch);
  \<close>
\<close>

definition build :: task where
  "build = gulp_series [gulp_parallel [compileDesignFile, generateVendorScript], validate, buildComponentSetZip]"

definition dev :: "change list \<Rightarrow> task" where
  "dev changes = gulp_series [gulp_parallel [compileDesignFile, generateVendorScript], watch changes]"

section \<open>Notions the specification uses\<close>

text \<open>A style partial: a name that starts with an underscore and ends with \<open>.scss\<close>.\<close>

definition isStylePartial :: "string \<Rightarrow> bool" where
  "isStylePartial f = (prefix ''_'' f \<and> suffix ''.scss'' f)"

text \<open>The archives handed to the destination, and the writes addressed to a path, in a trace.\<close>

fun isZip :: "event \<Rightarrow> bool" where
  "isZip (Zip dest name entries) = True"
| "isZip e = False"

fun isWriteTo :: "string \<Rightarrow> event \<Rightarrow> bool" where
  "isWriteTo p (WriteFile q data) = (q = p)"
| "isWriteTo p e = False"

text \<open>
  A path below the components folder, and a path one of whose segments is the transient
  marker name.
\<close>

definition underComponents :: "string \<Rightarrow> bool" where
  "underComponents p = (case split_sep p of [] \<Rightarrow> False | s # rest \<Rightarrow> s = ''components'' \<and> rest \<noteq> [])"

definition hasMarker :: "string \<Rightarrow> bool" where
  "hasMarker p = (''tms-timestamp'' \<in> set (split_sep p))"

text \<open>The same world with every verdict \<open>b\<close> of the validator replaced by \<open>g b\<close>.\<close>

definition with_verdicts :: "(bool \<Rightarrow> bool) \<Rightarrow> world \<Rightarrow> world" where
  "with_verdicts g w =
     w\<lparr>validateFolder := (\<lambda>fs folder. (map_sum id g (fst (validateFolder w fs folder)),
                                      snd (validateFolder w fs folder)))\<rparr>"

text \<open>
  What the two globs of \<^verbatim>\<open>buildComponentSetZip\<close> select: a path below the components
  folder, none of whose segments below it starts with a dot, whose last segment is a name
  other than the transient marker name.
\<close>

definition archived :: "string \<Rightarrow> bool" where
  "archived p =
     (case split_sep p of
        [] \<Rightarrow> False
      | s # rest \<Rightarrow>
          s = ''components'' \<and> rest \<noteq> [] \<and> list_all (\<lambda>x. \<not> hidden x) rest \<and>
          last rest \<noteq> [] \<and> last rest \<noteq> ''tms-timestamp'')"

section \<open>An example run\<close>

definition sample_world :: world where
  "sample_world =
     \<lparr>dirname = ''/proj'', cwd = ''/proj'',
      dirs = [''/proj/components/styles'' \<mapsto>
                [''_hero.scss'', ''readme.md'', ''_common.scss'', ''_card.scss'', ''design.scss''],
              ''/proj/components/scripts'' \<mapsto> []],
      files = map_of
        [(''/proj/scripts/dpsHTMLGestureAPI.min.js'', ''var g;''),
         (''/proj/scripts/jquery.js'', ''var jq;''),
         (''/proj/scripts/jquery.mobile.options.js'', ''var o;''),
         (''/proj/scripts/jquery.mobile.js'', ''var m;''),
         (''/proj/scripts/fullscreen.support.js'', ''var f;''),
         (''/proj/scripts/jssor.js'', ''var j;''),
         (''/proj/scripts/jssor.slider.js'', ''var s;''),
         (''/proj/scripts/slideshow.js'', ''var w;''),
         (''/proj/scripts/heroes.js'', ''var h;''),
         (''/proj/scripts/video.js'', ''var v;'')],
      denied = (\<lambda>p. False),
      tree = [''components'', ''components/components-definition.json'', ''components/.gitkeep'',
              ''components/styles'', ''components/styles/design.css'',
              ''components/styles/tms-timestamp'', ''dist/old.zip''],
      manifest = Inr (Some ''acme-widgets''),
      minify = (\<lambda>s. \<lparr>result_error = None, result_code = filter (\<lambda>c. c \<noteq> CHR '' '') s\<rparr>),
      sass = (\<lambda>s. Inl ''Error: File to import not found or unreadable: hero.''),
      validateFolder = (\<lambda>fs folder. (Inr False, [''components-definition.json: name is missing''])),
      trace = []\<rparr>"

text \<open>The example with a hidden file and a folder that has the transient marker name.\<close>

definition marker_world :: world where
  "marker_world =
     sample_world\<lparr>tree := [''components/components-definition.json'', ''components/.gitkeep'',
                           ''components/tms-timestamp'', ''components/tms-timestamp/notes.txt'']\<rparr>"

section \<open>The library functions on their documented examples\<close>

lemma extname_examples:
  "extname ''index.html'' = ''.html''"
  "extname ''index.coffee.md'' = ''.md''"
  "extname ''index.'' = ''.''"
  "extname ''index'' = ''''"
  "extname ''.index'' = ''''"
  "extname ''.index.md'' = ''.md''"
  by code_simp+

lemma slice_examples:
  "slice ''_common.scss'' 1 (int (length ''_common.scss'') - 5) = ''common''"
  "slice ''abcd'' 1 (-1) = ''bc''"
  "slice ''abc'' 1 (-2) = ''''"
  by code_simp+

lemma path_join_examples:
  "path_join ''/proj'' ''./components/styles'' = ''/proj/components/styles''"
  "path_join ''/proj/components/styles'' ''design.scss'' = ''/proj/components/styles/design.scss''"
  "path_join ''./components/scripts'' ''vendor.js'' = ''components/scripts/vendor.js''"
  "path_join ''./components/styles/'' ''design.css'' = ''components/styles/design.css''"
  "path_join ''/foo/bar'' ''../baz'' = ''/foo/baz''"
  by code_simp+

lemma glob_match_examples:
  "glob_match False (glob_segs ''components/**/*'') (split_sep ''components/a.html'')"
  "glob_match False (glob_segs ''components/**/*'') (split_sep ''components/styles/a.css'')"
  "\<not> glob_match False (glob_segs ''components/**/*'') (split_sep ''components'')"
  "\<not> glob_match False (glob_segs ''components/**/*'') (split_sep ''components/.gitkeep'')"
  "\<not> glob_match False (glob_segs ''components/**/*'') (split_sep ''dist/a.zip'')"
  "glob_match True (glob_segs ''components/**/tms-timestamp'') (split_sep ''components/tms-timestamp'')"
  "glob_match True (glob_segs ''components/**/tms-timestamp'') (split_sep ''components/a/b/tms-timestamp'')"
  "\<not> glob_match True (glob_segs ''components/**/tms-timestamp'') (split_sep ''components/tms-timestamp/a.txt'')"
  by code_simp+

section \<open>Properties of the path functions and the style aggregator\<close>

lemma ext_step_endPos:
  "endPos (ext_step c i st) = (if endPos st = -1 then int i + 1 else endPos st)"
  by (simp add: ext_step_def Let_def)

lemma ext_step_startDot:
  "startDot (ext_step c i st) =
     (if startDot st = -1 \<and> c = CHR ''.'' then int i else startDot st)"
  by (simp add: ext_step_def Let_def)

lemma ext_step_preDot_nondot:
  "c \<noteq> CHR ''.'' \<Longrightarrow> startDot st \<noteq> -1 \<Longrightarrow> preDotState (ext_step c i st) = -1"
  by (simp add: ext_step_def Let_def)

lemma loop_noslash_step:
  "path ! i \<noteq> CHR ''/'' \<Longrightarrow>
     extname_loop path (Suc i) st = extname_loop path i (ext_step (path ! i) i st)"
  by simp

lemma loop_endPos:
  "\<forall>j<n. path ! j \<noteq> CHR ''/'' \<Longrightarrow>
     endPos (extname_loop path n st) = (if endPos st = -1 \<and> 0 < n then int n else endPos st)"
proof (induction n arbitrary: st)
  case 0
  then show ?case by simp
next
  case (Suc i)
  have "endPos (extname_loop path i (ext_step (path ! i) i st)) =
          (if endPos (ext_step (path ! i) i st) = -1 \<and> 0 < i then int i
           else endPos (ext_step (path ! i) i st))"
    using Suc.prems by (intro Suc.IH) simp
  then show ?case using Suc.prems by (simp add: ext_step_endPos)
qed

lemma loop_startDot_keep:
  "\<forall>j<n. path ! j \<noteq> CHR ''/'' \<Longrightarrow> startDot st \<noteq> -1 \<Longrightarrow>
     startDot (extname_loop path n st) = startDot st"
proof (induction n arbitrary: st)
  case 0
  then show ?case by simp
next
  case (Suc i)
  have "startDot (extname_loop path i (ext_step (path ! i) i st)) =
          startDot (ext_step (path ! i) i st)"
    using Suc.prems by (intro Suc.IH) (simp_all add: ext_step_startDot)
  then show ?case using Suc.prems by (simp add: ext_step_startDot)
qed

lemma loop_startDot_none:
  "\<forall>j<n. path ! j \<noteq> CHR ''/'' \<and> path ! j \<noteq> CHR ''.'' \<Longrightarrow> startDot st = -1 \<Longrightarrow>
     startDot (extname_loop path n st) = -1"
proof (induction n arbitrary: st)
  case 0
  then show ?case by simp
next
  case (Suc i)
  have "startDot (extname_loop path i (ext_step (path ! i) i st)) = -1"
    using Suc.prems by (intro Suc.IH) (simp_all add: ext_step_startDot)
  then show ?case using Suc.prems by simp
qed

lemma loop_startDot_last:
  "\<forall>j<n. path ! j \<noteq> CHR ''/'' \<Longrightarrow> startDot st = -1 \<Longrightarrow> k < n \<Longrightarrow>
   path ! k = CHR ''.'' \<Longrightarrow> \<forall>j. k < j \<and> j < n \<longrightarrow> path ! j \<noteq> CHR ''.'' \<Longrightarrow>
     startDot (extname_loop path n st) = int k"
proof (induction n arbitrary: st)
  case 0
  then show ?case by simp
next
  case (Suc i)
  show ?case
  proof (cases "k = i")
    case True
    have "startDot (extname_loop path i (ext_step (path ! i) i st)) =
            startDot (ext_step (path ! i) i st)"
      using Suc.prems True by (intro loop_startDot_keep) (simp_all add: ext_step_startDot)
    then show ?thesis using Suc.prems True by (simp add: ext_step_startDot)
  next
    case False
    then have ki: "k < i" using Suc.prems by simp
    have "startDot (extname_loop path i (ext_step (path ! i) i st)) = int k"
      using Suc.prems ki by (intro Suc.IH) (simp_all add: ext_step_startDot)
    then show ?thesis using Suc.prems by simp
  qed
qed

lemma loop_preDot:
  "\<forall>j<n. path ! j \<noteq> CHR ''/'' \<Longrightarrow> 0 < n \<Longrightarrow> path ! 0 \<noteq> CHR ''.'' \<Longrightarrow>
   startDot (extname_loop path n st) \<noteq> -1 \<Longrightarrow>
     preDotState (extname_loop path n st) = -1"
proof (induction n arbitrary: st)
  case 0
  then show ?case by simp
next
  case (Suc i)
  show ?case
  proof (cases i)
    case 0
    then show ?thesis using Suc.prems
      by (auto simp: ext_step_def Let_def split: if_splits)
  next
    case (Suc m)
    have "preDotState (extname_loop path i (ext_step (path ! i) i st)) = -1"
      using Suc.prems Suc by (intro Suc.IH) simp_all
    then show ?thesis using Suc.prems by simp
  qed
qed

lemma noslash_nth: "CHR ''/'' \<notin> set f \<Longrightarrow> \<forall>j<length f. f ! j \<noteq> CHR ''/''"
  by (metis nth_mem)

lemma extname_nodot:
  assumes "CHR ''/'' \<notin> set f" and "CHR ''.'' \<notin> set f"
  shows "extname f = ''''"
proof -
  have "\<forall>j<length f. f ! j \<noteq> CHR ''/'' \<and> f ! j \<noteq> CHR ''.''"
    using assms by (metis nth_mem)
  then have "startDot (extname_loop f (length f) ext_init) = -1"
    by (rule loop_startDot_none) (simp add: ext_init_def)
  then show ?thesis by (simp add: extname_def Let_def)
qed

lemma extname_lastdot:
  assumes slash: "CHR ''/'' \<notin> set f"
    and f: "f = pre @ CHR ''.'' # ext" and ext: "CHR ''.'' \<notin> set ext"
    and pre: "pre \<noteq> []" "hd pre \<noteq> CHR ''.''"
  shows "extname f = CHR ''.'' # ext"
proof -
  let ?st = "extname_loop f (length f) ext_init"
  have ns: "\<forall>j<length f. f ! j \<noteq> CHR ''/''" using slash by (rule noslash_nth)
  have after: "\<forall>j. length pre < j \<and> j < length f \<longrightarrow> f ! j \<noteq> CHR ''.''"
  proof (intro allI impI)
    fix j assume "length pre < j \<and> j < length f"
    then have j: "length pre < j" "j < length f" by simp_all
    then have "f ! j = ext ! (j - length pre - 1)"
      using f by (simp add: nth_append nth_Cons')
    moreover have "j - length pre - 1 < length ext" using j f by auto
    ultimately show "f ! j \<noteq> CHR ''.''" using ext by (metis nth_mem)
  qed
  have sd: "startDot ?st = int (length pre)"
    using ns _ _ _ after by (rule loop_startDot_last) (simp_all add: ext_init_def f)
  have ep: "endPos ?st = int (length f)"
    using loop_endPos [OF ns, of ext_init] f by (simp add: ext_init_def)
  have "f ! 0 \<noteq> CHR ''.''" using pre f by (simp add: nth_append hd_conv_nth)
  then have pd: "preDotState ?st = -1"
    using ns sd f by (intro loop_preDot) simp_all
  have "extname f = slice f (int (length pre)) (int (length f))"
    using sd ep pd by (simp add: extname_def Let_def)
  also have "\<dots> = drop (length pre) f" using f by (simp add: slice_def Let_def)
  finally show ?thesis using f by simp
qed

lemma qualifies_iff:
  assumes slash: "CHR ''/'' \<notin> set f"
  shows "(startsWith f ''_'' \<and> extname f = scssExt) \<longleftrightarrow> isStylePartial f"
proof
  assume q: "startsWith f ''_'' \<and> extname f = scssExt"
  then obtain t where ft: "f = CHR ''_'' # t"
    by (cases f) (auto simp: startsWith_def)
  have "CHR ''.'' \<in> set f"
    using q extname_nodot [OF slash] by (auto simp: scssExt_def)
  then obtain pre ext where sp: "f = pre @ CHR ''.'' # ext" "CHR ''.'' \<notin> set ext"
    by (meson split_list_last)
  have pre: "pre \<noteq> []" "hd pre \<noteq> CHR ''.''"
    using ft sp(1) by (cases pre; simp)+
  have "extname f = CHR ''.'' # ext"
    using slash sp pre by (rule extname_lastdot)
  then have "ext = ''scss''" using q by (simp add: scssExt_def)
  then have "suffix ''.scss'' f" using sp(1) by (simp add: suffix_def)
  moreover have "prefix ''_'' f" using ft by simp
  ultimately show "isStylePartial f" by (simp add: isStylePartial_def)
next
  assume p: "isStylePartial f"
  then obtain t where ft: "f = CHR ''_'' # t"
    by (auto simp: isStylePartial_def prefix_def)
  from p obtain pre where fp: "f = pre @ ''.scss''"
    by (auto simp: isStylePartial_def suffix_def)
  have pre: "pre \<noteq> []" "hd pre \<noteq> CHR ''.''"
    using ft fp by (cases pre; simp)+
  have "extname f = CHR ''.'' # ''scss''"
    using slash _ _ pre by (rule extname_lastdot) (simp_all add: fp)
  then show "startsWith f ''_'' \<and> extname f = scssExt"
    using ft by (simp add: startsWith_def scssExt_def)
qed

lemma buildScssString_partial:
  assumes "isStylePartial f"
  shows \<open>\<exists>n. f = ''_'' @ n @ ''.scss'' \<and> buildScssString f = ''@import "'' @ n @ ''";\<newline>''\<close>
proof -
  from assms obtain t where ft: "f = CHR ''_'' # t"
    by (auto simp: isStylePartial_def prefix_def)
  from assms obtain pre where fp: "f = pre @ ''.scss''"
    by (auto simp: isStylePartial_def suffix_def)
  obtain n where pn: "pre = CHR ''_'' # n" using ft fp by (cases pre) auto
  have "slice f 1 (int (length f) - int (length scssExt)) = n"
    by (simp add: fp pn slice_def scssExt_def Let_def)
  then show ?thesis using fp pn by (simp add: buildScssString_def)
qed

lemma buildScssString_inj: "inj_on buildScssString (Collect isStylePartial)"
proof (rule inj_onI)
  fix f g
  assume "f \<in> Collect isStylePartial" "g \<in> Collect isStylePartial"
    and eq: "buildScssString f = buildScssString g"
  then obtain n m where
    f: \<open>f = ''_'' @ n @ ''.scss''\<close> \<open>buildScssString f = ''@import "'' @ n @ ''";\<newline>''\<close> and
    g: \<open>g = ''_'' @ m @ ''.scss''\<close> \<open>buildScssString g = ''@import "'' @ m @ ''";\<newline>''\<close>
    using buildScssString_partial by (metis mem_Collect_eq)
  from eq f(2) g(2) have "n = m" by simp
  then show "f = g" using f(1) g(1) by simp
qed

lemma common_partial: "isStylePartial ''_common.scss''"
  by (simp add: isStylePartial_def suffix_def)

lemma common_qualifies: "startsWith ''_common.scss'' ''_'' \<and> extname ''_common.scss'' = scssExt"
  by (simp add: qualifies_iff common_partial)

lemma common_line: \<open>buildScssString ''_common.scss'' = ''@import "common";\<newline>''\<close>
  by (simp add: buildScssString_def slice_def scssExt_def)

lemma concat_replicate_comm: "concat (replicate k l) @ l = l @ concat (replicate k l)"
  by (induction k) simp_all

lemma designLoop_eq:
  "designLoop names acc =
     concat (replicate (count_list names ''_common.scss'') (buildScssString ''_common.scss''))
     @ acc
     @ concat (map buildScssString
         (filter (\<lambda>f. (startsWith f ''_'' \<and> extname f = scssExt) \<and> f \<noteq> ''_common.scss'') names))"
proof (induction names arbitrary: acc)
  case Nil
  then show ?case by simp
next
  case (Cons x rest)
  show ?case
  proof (cases "x = ''_common.scss''")
    case True
    have "designLoop (x # rest) acc = designLoop rest (buildScssString x @ acc)"
      using True common_qualifies by simp
    then show ?thesis
      using True concat_replicate_comm [of _ "buildScssString ''_common.scss''"]
      by (simp add: Cons.IH del: designLoop.simps)
  next
    case False
    then show ?thesis by (simp add: Cons.IH)
  qed
qed

lemma designLoop_partials:
  assumes "\<forall>f\<in>set names. CHR ''/'' \<notin> set f"
  shows "designLoop names [] =
     concat (replicate (count_list names ''_common.scss'') (buildScssString ''_common.scss''))
     @ concat (map buildScssString
         (filter (\<lambda>f. isStylePartial f \<and> f \<noteq> ''_common.scss'') names))"
proof -
  have "filter (\<lambda>f. (startsWith f ''_'' \<and> extname f = scssExt) \<and> f \<noteq> ''_common.scss'') names =
        filter (\<lambda>f. isStylePartial f \<and> f \<noteq> ''_common.scss'') names"
    using assms by (intro filter_cong refl) (simp add: qualifies_iff)
  then show ?thesis by (simp add: designLoop_eq)
qed

lemma emit_fields:
  "trace (emit e w) = trace w @ [e]" "files (emit e w) = files w" "dirs (emit e w) = dirs w"
  "denied (emit e w) = denied w" "cwd (emit e w) = cwd w" "dirname (emit e w) = dirname w"
  "minify (emit e w) = minify w" "sass (emit e w) = sass w"
  "validateFolder (emit e w) = validateFolder w" "manifest (emit e w) = manifest w"
  "tree (emit e w) = tree w"
  by (simp_all add: emit_def)

lemma locate_emit: "locate (emit e w) p = locate w p"
  by (simp add: locate_def emit_fields)

lemma generateDesignFile_run:
  assumes "dirs w (locate w (stylesdir w)) = Some names"
  shows "generateDesignFile w =
           writeFileAsync (emit (ReadDir (stylesdir w)) w) (designPath w) (designContent names)"
  using assms by (simp add: generateDesignFile_def readdirSync_def designPath_def designContent_def)

lemma writeFileAsync_trace: "trace (snd (writeFileAsync w p data)) = trace w @ [WriteFile p data]"
  by (simp add: writeFileAsync_def emit_fields)

lemma generateDesignFile_trace:
  assumes "dirs w (locate w (stylesdir w)) = Some names"
  shows "trace (snd (generateDesignFile w)) =
           trace w @ [ReadDir (stylesdir w), WriteFile (designPath w) (designContent names)]"
  by (simp add: generateDesignFile_run [OF assms] writeFileAsync_trace emit_fields)


lemma sample_paths:
  "stylesdir sample_world = ''/proj/components/styles''"
  "designPath sample_world = ''/proj/components/styles/design.scss''"
  "locate sample_world ''/proj/components/styles'' = ''/proj/components/styles''"
  "trace sample_world = []"
  by (simp_all add: stylesdir_def designPath_def sample_world_def path_join_def normalize_def locate_def startsWith_def)

lemma partials_split:
  "mset (filter (\<lambda>f. f = ''_common.scss'') names) +
   mset (filter (\<lambda>f. isStylePartial f \<and> f \<noteq> ''_common.scss'') names) =
   filter_mset isStylePartial (mset names)"
  by (induction names) (auto simp: common_partial)

lemma replicate_common:
  "replicate (count_list names c) (g c) = map g (filter (\<lambda>f. f = c) names)"
  by (induction names) auto

section \<open>Properties of the vendor script bundler\<close>

lemma readFileAsync_Some:
  "files w (locate w p) = Some buf \<Longrightarrow> readFileAsync w p = (Inr buf, emit (ReadFile p) w)"
  by (simp add: readFileAsync_def)

lemma emit_trace_update:
  "(emit e w)\<lparr>trace := trace (emit e w) @ es\<rparr> = w\<lparr>trace := trace w @ e # es\<rparr>"
  by (simp add: emit_def)

lemma concatLoop_reads:
  assumes "map (\<lambda>p. files w (locate w p)) scripts = map Some contents"
  shows "concatLoop scripts i acc w =
           (Inr (acc @ concat (map (\<lambda>c. c @ ''\<newline>'') (drop i contents))),
            w\<lparr>trace := trace w @ map ReadFile (drop i scripts)\<rparr>)"
  using assms
proof (induction scripts i acc w rule: concatLoop.induct)
  case (1 scripts i content w)
  have len: "length contents = length scripts"
    using "1.prems" by (metis length_map)
  show ?case
  proof (cases "i < length scripts")
    case True
    have "files w (locate w (scripts ! i)) = Some (contents ! i)"
      using "1.prems" True len by (metis nth_map)
    then have rd: "readFileAsync w (scripts ! i) = (Inr (contents ! i), emit (ReadFile (scripts ! i)) w)"
      by (rule readFileAsync_Some)
    have pre: "map (\<lambda>p. files (emit (ReadFile (scripts ! i)) w) (locate (emit (ReadFile (scripts ! i)) w) p)) scripts
                 = map Some contents"
      using "1.prems" by (simp add: emit_fields locate_emit)
    have step: "concatLoop scripts i content w =
                concatLoop scripts (i + 1) (content @ contents ! i @ ''\<newline>'') (emit (ReadFile (scripts ! i)) w)"
      using True rd by (subst concatLoop.simps) simp
    have d1: "drop i contents = contents ! i # drop (Suc i) contents"
      using True len by (simp add: Cons_nth_drop_Suc)
    have d2: "drop i scripts = scripts ! i # drop (Suc i) scripts"
      using True by (simp add: Cons_nth_drop_Suc)
    show ?thesis
      unfolding step "1.IH" [OF True rd [symmetric] refl pre]
      by (simp add: d1 d2 emit_trace_update)
  next
    case False
    then show ?thesis using len by (subst concatLoop.simps) simp
  qed
qed

lemma sample_scripts:
  "scriptFiles sample_world =
     [''/proj/scripts/dpsHTMLGestureAPI.min.js'', ''/proj/scripts/jquery.js'',
      ''/proj/scripts/jquery.mobile.options.js'', ''/proj/scripts/jquery.mobile.js'',
      ''/proj/scripts/fullscreen.support.js'', ''/proj/scripts/jssor.js'',
      ''/proj/scripts/jssor.slider.js'', ''/proj/scripts/slideshow.js'',
      ''/proj/scripts/heroes.js'', ''/proj/scripts/video.js'']"
  by (simp add: scriptFiles_def scriptsDir_def sample_world_def path_join_def normalize_def)

lemma sample_contents:
  "map (\<lambda>p. files sample_world (locate sample_world p)) (scriptFiles sample_world) =
   map Some [''var g;'', ''var jq;'', ''var o;'', ''var m;'', ''var f;'', ''var j;'', ''var s;'',
             ''var w;'', ''var h;'', ''var v;'']"
  unfolding sample_scripts by (simp add: locate_def startsWith_def) (simp add: sample_world_def)

section \<open>Properties of the pipelines\<close>

lemma filter_isZip_emit:
  "\<not> isZip e \<Longrightarrow> filter isZip (trace (emit e w)) = filter isZip (trace w)"
  by (simp add: emit_fields)

lemma readdirSync_nozip: "filter isZip (trace (snd (readdirSync w p))) = filter isZip (trace w)"
  by (simp add: readdirSync_def emit_fields split: option.splits)

lemma readFileAsync_nozip: "filter isZip (trace (snd (readFileAsync w p))) = filter isZip (trace w)"
  by (simp add: readFileAsync_def emit_fields split: option.splits)

lemma writeFileAsync_nozip: "filter isZip (trace (snd (writeFileAsync w p d))) = filter isZip (trace w)"
  by (simp add: writeFileAsync_def emit_fields)

lemma mkdirSync_nozip: "filter isZip (trace (snd (mkdirSync w p))) = filter isZip (trace w)"
  by (simp add: mkdirSync_def emit_fields)

lemma generateDesignFile_nozip:
  "filter isZip (trace (snd (generateDesignFile w))) = filter isZip (trace w)"
proof (cases "readdirSync w (stylesdir w)")
  case (Pair r w1)
  then have "filter isZip (trace w1) = filter isZip (trace w)"
    using readdirSync_nozip [of w "stylesdir w"] by simp
  then show ?thesis
    using Pair by (cases r) (simp_all add: generateDesignFile_def writeFileAsync_nozip)
qed

lemma compileDesignFile_nozip:
  "filter isZip (trace (snd (compileDesignFile w))) = filter isZip (trace w)"
proof (cases "generateDesignFile w")
  case (Pair r w1)
  then have a: "filter isZip (trace w1) = filter isZip (trace w)"
    using generateDesignFile_nozip [of w] by simp
  show ?thesis
  proof (cases r)
    case (Inl e)
    then show ?thesis using Pair a by (simp add: compileDesignFile_def)
  next
    case (Inr u)
    obtain r2 w2 where rd: "readFileAsync w1 ''./components/styles/design.scss'' = (r2, w2)"
      by (cases "readFileAsync w1 ''./components/styles/design.scss''")
    then have b: "filter isZip (trace w2) = filter isZip (trace w)"
      using readFileAsync_nozip [of w1 "''./components/styles/design.scss''"] a by simp
    show ?thesis
      using Pair Inr rd b
      by (cases r2)
         (simp_all add: compileDesignFile_def writeFileAsync_nozip emit_fields split: sum.splits)
  qed
qed

lemma concatLoop_nozip:
  "filter isZip (trace (snd (concatLoop scripts i acc w))) = filter isZip (trace w)"
proof (induction scripts i acc w rule: concatLoop.induct)
  case (1 scripts i content w)
  show ?case
  proof (cases "i < length scripts")
    case True
    obtain r w1 where rd: "readFileAsync w (scripts ! i) = (r, w1)"
      by (cases "readFileAsync w (scripts ! i)")
    then have a: "filter isZip (trace w1) = filter isZip (trace w)"
      using readFileAsync_nozip [of w "scripts ! i"] by simp
    show ?thesis
    proof (cases r)
      case (Inl e)
      then show ?thesis using True rd a by (subst concatLoop.simps) simp
    next
      case (Inr buf)
      then show ?thesis
        using True rd a "1.IH" [OF True rd [symmetric] Inr]
        by (subst concatLoop.simps) simp
    qed
  next
    case False
    then show ?thesis by (subst concatLoop.simps) simp
  qed
qed

lemma generateVendorScriptFrom_nozip:
  "filter isZip (trace (snd (generateVendorScriptFrom scripts w))) = filter isZip (trace w)"
proof (cases "concatLoop scripts 0 '''' w")
  case (Pair r w1)
  then have a: "filter isZip (trace w1) = filter isZip (trace w)"
    using concatLoop_nozip [of scripts 0 "''''" w] by simp
  show ?thesis
  proof (cases r)
    case (Inl e)
    then show ?thesis using Pair a by (simp add: generateVendorScriptFrom_def)
  next
    case (Inr content)
    obtain r2 w2 where mk:
      "(if \<not> existsSync w1 ''./components/scripts'' then mkdirSync w1 ''./components/scripts''
        else (Inr (), w1)) = (r2, w2)"
      by (cases "if \<not> existsSync w1 ''./components/scripts'' then mkdirSync w1 ''./components/scripts''
                 else (Inr (), w1)")
    then have b: "filter isZip (trace w2) = filter isZip (trace w)"
      using mkdirSync_nozip [of w1 "''./components/scripts''"] a by (auto split: if_splits)
    show ?thesis
      using Pair Inr mk a b
      by (cases r2)
         (simp_all add: generateVendorScriptFrom_def Let_def writeFileAsync_nozip split: option.splits)
  qed
qed

lemma stage1_nozip:
  "filter isZip (trace (snd (gulp_parallel [compileDesignFile, generateVendorScript] w))) =
   filter isZip (trace w)"
proof -
  obtain r w1 where c: "compileDesignFile w = (r, w1)" by (cases "compileDesignFile w")
  obtain r2 w2 where v: "generateVendorScript w1 = (r2, w2)" by (cases "generateVendorScript w1")
  have "filter isZip (trace w1) = filter isZip (trace w)"
    using compileDesignFile_nozip [of w] c by simp
  moreover have "filter isZip (trace w2) = filter isZip (trace w1)"
    using generateVendorScriptFrom_nozip [of "scriptFiles w1" w1] v
    by (simp add: generateVendorScript_def)
  ultimately show ?thesis using c v by simp
qed

lemma validate_false:
  assumes "fst (validateFolder w (files w) ''./components'') = Inr False"
  shows "validate w =
           (Inl (Error ''Package failed validation. See errors above.''),
            w\<lparr>trace := trace w @ map Log (snd (validateFolder w (files w) ''./components''))\<rparr>)"
  using assms
  by (cases "validateFolder w (files w) ''./components''")
     (simp add: validate_def componentsValidator_def)

lemma componentsValidator_with_verdicts:
  "componentsValidator (with_verdicts g w) folder =
     (map_sum id g (fst (componentsValidator w folder)),
      with_verdicts g (snd (componentsValidator w folder)))"
  by (cases "validateFolder w (files w) folder")
     (simp add: componentsValidator_def with_verdicts_def)

lemma validateNoBail_with_verdicts:
  "validateNoBail (with_verdicts g w) =
     (fst (validateNoBail w), with_verdicts g (snd (validateNoBail w)))"
proof -
  obtain r w1 where c: "componentsValidator w ''./components'' = (r, w1)"
    by (cases "componentsValidator w ''./components''")
  show ?thesis
    using componentsValidator_with_verdicts [of g w "''./components''"] c
    by (cases r) (simp_all add: validateNoBail_def)
qed

lemma apply_change_with_verdicts:
  "apply_change c (with_verdicts g w) = with_verdicts g (apply_change c w)"
  by (simp add: apply_change_def with_verdicts_def locate_def)

lemma emit_with_verdicts: "emit e (with_verdicts g w) = with_verdicts g (emit e w)"
  by (simp add: emit_def with_verdicts_def)

lemma watch_loop_with_verdicts:
  assumes "\<And>v. snd (t (with_verdicts g v)) = with_verdicts g (snd (t v))"
  shows "watch_loop t cs (with_verdicts g w) = with_verdicts g (watch_loop t cs w)"
  by (induction cs arbitrary: w) (simp_all add: Let_def apply_change_with_verdicts assms)

lemma revalidate_with_verdicts:
  "snd (gulp_series [validateNoBail] (with_verdicts g v)) =
     with_verdicts g (snd (gulp_series [validateNoBail] v))"
  by (cases "validateNoBail v"; cases "fst (validateNoBail v)")
     (simp_all add: validateNoBail_with_verdicts)

section \<open>Properties of the archive builder\<close>

lemma glob_star_tail:
  "glob_match dot [GlobStar, Star] rest \<longleftrightarrow>
     rest \<noteq> [] \<and> last rest \<noteq> [] \<and> (\<forall>s\<in>set rest. dot \<or> \<not> hidden s)"
  by (induction rest) auto

lemma glob_lit_tail:
  "glob_match dot [GlobStar, Lit l] rest \<longleftrightarrow>
     rest \<noteq> [] \<and> last rest = l \<and> (\<forall>s\<in>set (butlast rest). dot \<or> \<not> hidden s)"
  by (induction rest) auto

lemma glob_segs_components:
  "glob_segs ''components/**/*'' = [Lit ''components'', GlobStar, Star]"
  "glob_segs ''components/**/tms-timestamp'' = [Lit ''components'', GlobStar, Lit ''tms-timestamp'']"
  by (simp_all add: glob_segs_def)

lemma selected_iff:
  "(glob_match False (glob_segs ''components/**/*'') (split_sep p) \<and>
    \<not> glob_match True (glob_segs ''components/**/tms-timestamp'') (split_sep p)) \<longleftrightarrow> archived p"
  unfolding glob_segs_components archived_def
  by (cases "split_sep p")
     (auto simp: glob_star_tail glob_lit_tail list_all_iff simp del: glob_match.simps(2))

lemma gulp_src_components:
  "gulp_src w [''components/**/*'', ''!components/**/tms-timestamp''] = filter archived (tree w)"
proof -
  have "gulp_src w [''components/**/*'', ''!components/**/tms-timestamp''] =
      filter (\<lambda>p. glob_match False (glob_segs ''components/**/*'') (split_sep p) \<and>
                   \<not> glob_match True (glob_segs ''components/**/tms-timestamp'') (split_sep p)) (tree w)"
    by (simp add: gulp_src_def startsWith_def)
  then show ?thesis by (simp add: selected_iff)
qed

lemma archived_manifest: "archived ''components/components-definition.json''"
  by (simp add: archived_def hidden_def startsWith_def)

lemma archived_under: "archived p \<Longrightarrow> underComponents p \<and> last (split_sep p) \<noteq> ''tms-timestamp''"
  by (cases "split_sep p") (auto simp: archived_def underComponents_def)

section \<open>The style aggregator: claims\<close>

text \<open>
  Claim C1. Whatever the position of \<open>_common.scss\<close> in the enumeration of the styles
  directory, the content \<^verbatim>\<open>generateDesignFile\<close> writes has, right after the banner, the import
  line of the common partial (once for each time the name is enumerated, so once in a real
  directory), and after it the import lines of all other style partials, in enumeration
  order.
\<close>

theorem generateDesignFile_common_first:
  assumes "dirs w (locate w (stylesdir w)) = Some names"
    and "\<forall>f\<in>set names. CHR ''/'' \<notin> set f"
    and "''_common.scss'' \<in> set names"
  shows \<open>0 < count_list names ''_common.scss'' \<and>
         buildScssString ''_common.scss'' = ''@import "common";\<newline>'' \<and>
         trace (snd (generateDesignFile w)) =
           trace w @
           [ReadDir (stylesdir w),
            WriteFile (designPath w)
              (banner
               @ concat (replicate (count_list names ''_common.scss'') (buildScssString ''_common.scss''))
               @ concat (map buildScssString
                   (filter (\<lambda>f. isStylePartial f \<and> f \<noteq> ''_common.scss'') names)))]\<close>
proof -
  have "0 < count_list names ''_common.scss''"
    using assms(3) by (induction names) auto
  moreover have "designContent names =
      banner
      @ concat (replicate (count_list names ''_common.scss'') (buildScssString ''_common.scss''))
      @ concat (map buildScssString (filter (\<lambda>f. isStylePartial f \<and> f \<noteq> ''_common.scss'') names))"
    by (simp add: designContent_def designLoop_partials [OF assms(2)])
  ultimately show ?thesis
    using generateDesignFile_trace [OF assms(1)] common_line by simp
qed

theorem generateDesignFile_common_first_witness:
  \<open>trace (snd (generateDesignFile sample_world)) =
     [ReadDir ''/proj/components/styles'',
      WriteFile ''/proj/components/styles/design.scss''
        (banner @ ''@import "common";\<newline>'' @ ''@import "hero";\<newline>'' @ ''@import "card";\<newline>'')]\<close>
proof -
  let ?names = "[''_hero.scss'', ''readme.md'', ''_common.scss'', ''_card.scss'', ''design.scss'']"
  have d: "dirs sample_world (locate sample_world (stylesdir sample_world)) = Some ?names"
    by (simp add: sample_paths) (simp add: sample_world_def)
  have s: "\<forall>f\<in>set ?names. CHR ''/'' \<notin> set f" by simp
  have c: "''_common.scss'' \<in> set ?names" by simp
  have p: "filter (\<lambda>f. isStylePartial f \<and> f \<noteq> ''_common.scss'') ?names = [''_hero.scss'', ''_card.scss'']"
    by (simp add: isStylePartial_def suffix_def)
  show ?thesis
    using generateDesignFile_common_first [OF d s c]
    unfolding p
    by (simp add: sample_paths common_line buildScssString_def slice_def scssExt_def)
qed

text \<open>
  Claim C2. For the names of a directory (none contains a separator), the content
  \<^verbatim>\<open>generateDesignFile\<close> writes is the banner followed by import lines that correspond one to
  one to the enumerated names that start with an underscore and end with \<open>.scss\<close>: there
  is no line for any other name. The line of a partial \<open>_n.scss\<close> references \<open>n\<close>, the name
  without the underscore and the extension, and different partials have different lines.
\<close>

theorem generateDesignFile_one_import_per_partial:
  assumes "dirs w (locate w (stylesdir w)) = Some names"
    and "\<forall>f\<in>set names. CHR ''/'' \<notin> set f"
  shows \<open>(\<exists>lines.
            trace (snd (generateDesignFile w)) =
              trace w @ [ReadDir (stylesdir w), WriteFile (designPath w) (banner @ concat lines)] \<and>
            mset lines = image_mset buildScssString (filter_mset isStylePartial (mset names))) \<and>
         (\<forall>f\<in>set names. isStylePartial f \<longrightarrow>
            (\<exists>n. f = ''_'' @ n @ ''.scss'' \<and> buildScssString f = ''@import "'' @ n @ ''";\<newline>'')) \<and>
         inj_on buildScssString (Collect isStylePartial)\<close>
proof -
  let ?c = "''_common.scss''"
  let ?lines = "map buildScssString
      (filter (\<lambda>f. f = ?c) names @ filter (\<lambda>f. isStylePartial f \<and> f \<noteq> ?c) names)"
  have "designContent names = banner @ concat ?lines"
    by (simp add: designContent_def designLoop_partials [OF assms(2)] replicate_common)
  then have "trace (snd (generateDesignFile w)) =
      trace w @ [ReadDir (stylesdir w), WriteFile (designPath w) (banner @ concat ?lines)]"
    using generateDesignFile_trace [OF assms(1)] by simp
  moreover have "mset ?lines = image_mset buildScssString (filter_mset isStylePartial (mset names))"
    using partials_split [of names] by (simp flip: image_mset_union)
  ultimately have "\<exists>lines.
      trace (snd (generateDesignFile w)) =
        trace w @ [ReadDir (stylesdir w), WriteFile (designPath w) (banner @ concat lines)] \<and>
      mset lines = image_mset buildScssString (filter_mset isStylePartial (mset names))"
    by blast
  then show ?thesis
    using buildScssString_partial buildScssString_inj by blast
qed

theorem generateDesignFile_one_import_per_partial_witness:
  \<open>(\<exists>lines.
      trace (snd (generateDesignFile sample_world)) =
        [ReadDir ''/proj/components/styles'',
         WriteFile ''/proj/components/styles/design.scss'' (banner @ concat lines)] \<and>
      mset lines = {#''@import "hero";\<newline>'', ''@import "common";\<newline>'', ''@import "card";\<newline>''#}) \<and>
   inj_on buildScssString (Collect isStylePartial)\<close>
proof -
  let ?names = "[''_hero.scss'', ''readme.md'', ''_common.scss'', ''_card.scss'', ''design.scss'']"
  have d: "dirs sample_world (locate sample_world (stylesdir sample_world)) = Some ?names"
    by (simp add: sample_paths) (simp add: sample_world_def)
  have s: "\<forall>f\<in>set ?names. CHR ''/'' \<notin> set f" by simp
  have p: "filter_mset isStylePartial (mset ?names) = {#''_hero.scss'', ''_common.scss'', ''_card.scss''#}"
    by (simp add: isStylePartial_def suffix_def)
  show ?thesis
    using generateDesignFile_one_import_per_partial [OF d s]
    unfolding p
    by (simp add: sample_paths buildScssString_def slice_def scssExt_def)
qed

text \<open>
  Claim C9. When no enumerated name is a style partial, \<^verbatim>\<open>generateDesignFile\<close> still issues
  the write of the entry file, with the banner alone as content; when the write is not
  refused the task succeeds and the file holds exactly the banner.
\<close>

theorem generateDesignFile_no_partials:
  assumes "dirs w (locate w (stylesdir w)) = Some names"
    and "\<forall>f\<in>set names. CHR ''/'' \<notin> set f \<and> \<not> isStylePartial f"
  shows "trace (snd (generateDesignFile w)) =
           trace w @ [ReadDir (stylesdir w), WriteFile (designPath w) banner] \<and>
         (\<not> denied w (locate w (designPath w)) \<longrightarrow>
            fst (generateDesignFile w) = Inr () \<and>
            files (snd (generateDesignFile w)) (locate w (designPath w)) = Some banner)"
proof -
  have none: "filter (\<lambda>f. isStylePartial f \<and> f \<noteq> ''_common.scss'') names = []"
    using assms(2) by (simp add: filter_empty_conv)
  have "''_common.scss'' \<notin> set names"
    using assms(2) common_partial by blast
  then have "count_list names ''_common.scss'' = 0"
    by (simp add: count_list_0_iff)
  then have c: "designContent names = banner"
    using assms(2) by (simp add: designContent_def designLoop_partials none)
  show ?thesis
    using generateDesignFile_trace [OF assms(1)]
    by (simp add: c generateDesignFile_run [OF assms(1)] writeFileAsync_def emit_fields locate_emit)
qed

theorem generateDesignFile_no_partials_witness:
  "trace (snd (generateDesignFile
     (sample_world\<lparr>dirs := [''/proj/components/styles'' \<mapsto>
                                [''readme.md'', ''design.scss'', ''hero.scss'', ''_notes.txt'']]\<rparr>))) =
     [ReadDir ''/proj/components/styles'', WriteFile ''/proj/components/styles/design.scss'' banner] \<and>
   fst (generateDesignFile
     (sample_world\<lparr>dirs := [''/proj/components/styles'' \<mapsto>
                                [''readme.md'', ''design.scss'', ''hero.scss'', ''_notes.txt'']]\<rparr>)) = Inr () \<and>
   files (snd (generateDesignFile
     (sample_world\<lparr>dirs := [''/proj/components/styles'' \<mapsto>
                                [''readme.md'', ''design.scss'', ''hero.scss'', ''_notes.txt'']]\<rparr>)))
     ''/proj/components/styles/design.scss'' = Some banner"
proof -
  let ?names = "[''readme.md'', ''design.scss'', ''hero.scss'', ''_notes.txt'']"
  let ?w = "sample_world\<lparr>dirs := [''/proj/components/styles'' \<mapsto> ?names]\<rparr>"
  have paths: "stylesdir ?w = ''/proj/components/styles''"
    "designPath ?w = ''/proj/components/styles/design.scss''"
    "locate ?w ''/proj/components/styles'' = ''/proj/components/styles''"
    "locate ?w ''/proj/components/styles/design.scss'' = ''/proj/components/styles/design.scss''"
    using sample_paths by (simp_all add: stylesdir_def designPath_def locate_def startsWith_def)
  have d: "dirs ?w (locate ?w (stylesdir ?w)) = Some ?names"
    by (simp add: paths)
  have s: "\<forall>f\<in>set ?names. CHR ''/'' \<notin> set f \<and> \<not> isStylePartial f"
    by (simp add: isStylePartial_def suffix_def)
  have nd: "\<not> denied ?w (locate ?w (designPath ?w))"
    by (simp add: sample_world_def)
  show ?thesis
    using generateDesignFile_no_partials [OF d s] nd by (simp add: paths sample_paths)
qed

text \<open>
  Claim C10. The content \<^verbatim>\<open>generateDesignFile\<close> writes is \<open>designContent\<close> of the enumerated
  names: two runs whose styles directories enumerate the same sequence of names write the
  same content, whatever else differs between the two worlds (the contents of the files in
  particular), and no file is read (the run adds the directory listing and the write to the
  trace, nothing else).
\<close>

theorem generateDesignFile_depends_on_names_only:
  assumes "dirs w1 (locate w1 (stylesdir w1)) = Some names"
    and "dirs w2 (locate w2 (stylesdir w2)) = Some names"
  shows "trace (snd (generateDesignFile w1)) =
           trace w1 @ [ReadDir (stylesdir w1), WriteFile (designPath w1) (designContent names)] \<and>
         trace (snd (generateDesignFile w2)) =
           trace w2 @ [ReadDir (stylesdir w2), WriteFile (designPath w2) (designContent names)]"
  using generateDesignFile_trace [OF assms(1)] generateDesignFile_trace [OF assms(2)] by simp

theorem generateDesignFile_depends_on_names_only_witness:
  "\<exists>content.
     trace (snd (generateDesignFile sample_world)) =
       [ReadDir ''/proj/components/styles'', WriteFile ''/proj/components/styles/design.scss'' content] \<and>
     trace (snd (generateDesignFile
       (sample_world\<lparr>files := Map.empty, trace := [Log ''earlier'']\<rparr>))) =
       [Log ''earlier'', ReadDir ''/proj/components/styles'',
        WriteFile ''/proj/components/styles/design.scss'' content]"
proof -
  let ?names = "[''_hero.scss'', ''readme.md'', ''_common.scss'', ''_card.scss'', ''design.scss'']"
  let ?w = "sample_world\<lparr>files := Map.empty, trace := [Log ''earlier'']\<rparr>"
  have paths: "stylesdir ?w = ''/proj/components/styles''"
    "designPath ?w = ''/proj/components/styles/design.scss''"
    "locate ?w ''/proj/components/styles'' = ''/proj/components/styles''"
    using sample_paths by (simp_all add: stylesdir_def designPath_def locate_def startsWith_def)
  have d1: "dirs sample_world (locate sample_world (stylesdir sample_world)) = Some ?names"
    by (simp add: sample_paths) (simp add: sample_world_def)
  have d2: "dirs ?w (locate ?w (stylesdir ?w)) = Some ?names"
    by (simp add: paths) (simp add: sample_world_def)
  show ?thesis
    using generateDesignFile_depends_on_names_only [OF d1 d2]
    by (simp add: paths sample_paths)
qed

section \<open>The vendor script bundler: claims\<close>

text \<open>
  Claim C3. For every list of script files that can all be read, the loop of
  \<^verbatim>\<open>generateVendorScript\<close> reads the files in list order and builds the concatenation of their
  contents in that order, each content once and each followed by a newline; this
  concatenation is what the minifier receives (when it succeeds and the target folder
  exists, the file written is the minifier's output for it).
\<close>

theorem generateVendorScript_concatenates_in_order:
  assumes "map (\<lambda>p. files w (locate w p)) scripts = map Some contents"
  shows "concatLoop scripts 0 '''' w =
           (Inr (concat (map (\<lambda>c. c @ ''\<newline>'') contents)),
            w\<lparr>trace := trace w @ map ReadFile scripts\<rparr>) \<and>
         (result_error (minify w (concat (map (\<lambda>c. c @ ''\<newline>'') contents))) = None \<longrightarrow>
          existsSync w ''./components/scripts'' \<longrightarrow>
            trace (snd (generateVendorScriptFrom scripts w)) =
              trace w @ map ReadFile scripts @
              [WriteFile (path_join ''./components/scripts'' ''vendor.js'')
                 (result_code (minify w (concat (map (\<lambda>c. c @ ''\<newline>'') contents))))])"
proof -
  let ?w1 = "w\<lparr>trace := trace w @ map ReadFile scripts\<rparr>"
  have loop: "concatLoop scripts 0 '''' w =
      (Inr (concat (map (\<lambda>c. c @ ''\<newline>'') contents)), ?w1)"
    using concatLoop_reads [OF assms, of 0 "''''"] by simp
  have ex: "existsSync ?w1 p = existsSync w p" for p
    by (simp add: existsSync_def locate_def)
  show ?thesis
    by (simp add: loop generateVendorScriptFrom_def Let_def ex writeFileAsync_def emit_def)
qed

theorem generateVendorScript_concatenates_in_order_witness:
  "concatLoop (scriptFiles sample_world) 0 '''' sample_world =
     (Inr ''var g;\<newline>var jq;\<newline>var o;\<newline>var m;\<newline>var f;\<newline>var j;\<newline>var s;\<newline>var w;\<newline>var h;\<newline>var v;\<newline>'',
      sample_world\<lparr>trace := map ReadFile (scriptFiles sample_world)\<rparr>) \<and>
   trace (snd (generateVendorScript sample_world)) =
     map ReadFile (scriptFiles sample_world) @
     [WriteFile ''components/scripts/vendor.js''
        ''varg;\<newline>varjq;\<newline>varo;\<newline>varm;\<newline>varf;\<newline>varj;\<newline>vars;\<newline>varw;\<newline>varh;\<newline>varv;\<newline>'']"
proof -
  have m: "minify sample_world = (\<lambda>s. \<lparr>result_error = None, result_code = filter (\<lambda>c. c \<noteq> CHR '' '') s\<rparr>)"
    by (simp add: sample_world_def)
  have e: "existsSync sample_world ''./components/scripts''"
    by (simp add: existsSync_def locate_def startsWith_def path_join_def normalize_def)
       (simp add: sample_world_def)
  have p: "path_join ''./components/scripts'' ''vendor.js'' = ''components/scripts/vendor.js''"
    by (simp add: path_join_def normalize_def)
  show ?thesis
    using generateVendorScript_concatenates_in_order [OF sample_contents] e
    by (simp add: m p generateVendorScript_def sample_paths)
qed

text \<open>
  Claim C4. When the minifier reports an error for the concatenation,
  \<^verbatim>\<open>generateVendorScript\<close> fails with an \<open>Error\<close> that carries the minifier's message, and the
  run consists of the reads alone: nothing is written to the vendor file and the file
  system is unchanged.
\<close>

theorem generateVendorScript_minify_error:
  assumes "map (\<lambda>p. files w (locate w p)) scripts = map Some contents"
    and "result_error (minify w (concat (map (\<lambda>c. c @ ''\<newline>'') contents))) = Some message"
  shows "generateVendorScriptFrom scripts w =
           (Inl (Error message), w\<lparr>trace := trace w @ map ReadFile scripts\<rparr>) \<and>
         filter (isWriteTo (path_join ''./components/scripts'' ''vendor.js''))
           (trace (snd (generateVendorScriptFrom scripts w))) =
         filter (isWriteTo (path_join ''./components/scripts'' ''vendor.js'')) (trace w) \<and>
         files (snd (generateVendorScriptFrom scripts w)) = files w"
proof -
  have loop: "concatLoop scripts 0 '''' w =
      (Inr (concat (map (\<lambda>c. c @ ''\<newline>'') contents)), w\<lparr>trace := trace w @ map ReadFile scripts\<rparr>)"
    using concatLoop_reads [OF assms(1), of 0 "''''"] by simp
  have run: "generateVendorScriptFrom scripts w =
      (Inl (Error message), w\<lparr>trace := trace w @ map ReadFile scripts\<rparr>)"
    using assms(2) by (simp add: loop generateVendorScriptFrom_def Let_def)
  have "filter (isWriteTo p) (map ReadFile scripts) = []" for p
    by (induction scripts) simp_all
  then show ?thesis by (simp add: run)
qed

theorem generateVendorScript_minify_error_witness:
  "generateVendorScript
     (sample_world\<lparr>minify := (\<lambda>s. \<lparr>result_error = Some ''Unexpected token: punc (})'', result_code = ''''\<rparr>)\<rparr>) =
   (Inl (Error ''Unexpected token: punc (})''),
    sample_world\<lparr>minify := (\<lambda>s. \<lparr>result_error = Some ''Unexpected token: punc (})'', result_code = ''''\<rparr>),
                 trace := map ReadFile (scriptFiles sample_world)\<rparr>)"
proof -
  let ?w = "sample_world\<lparr>minify := (\<lambda>s. \<lparr>result_error = Some ''Unexpected token: punc (})'', result_code = ''''\<rparr>)\<rparr>"
  have sf: "scriptFiles ?w = scriptFiles sample_world"
    by (simp add: scriptFiles_def scriptsDir_def)
  have l: "locate ?w p = locate sample_world p" for p
    by (simp add: locate_def)
  have c: "map (\<lambda>p. files ?w (locate ?w p)) (scriptFiles ?w) =
      map Some [''var g;'', ''var jq;'', ''var o;'', ''var m;'', ''var f;'', ''var j;'', ''var s;'',
                ''var w;'', ''var h;'', ''var v;'']"
    using sample_contents by (simp add: sf l)
  have m: "result_error (minify ?w x) = Some ''Unexpected token: punc (})''" for x
    by simp
  show ?thesis
    using generateVendorScript_minify_error [OF c m]
    by (simp add: generateVendorScript_def sf sample_paths)
qed

section \<open>The pipelines: claims\<close>

text \<open>
  Claim C5. In a run of \<^verbatim>\<open>build\<close> whose first stage succeeded, so that \<^verbatim>\<open>validate\<close> is called,
  and in which the validator answers \<open>false\<close>: \<^verbatim>\<open>validate\<close> fails with the error
  \<open>Package failed validation. See errors above.\<close>, the run of \<^verbatim>\<open>build\<close> ends there with that
  error (\<^verbatim>\<open>buildComponentSetZip\<close> is not run), and the run hands no archive to the destination.
\<close>

theorem build_stops_on_failed_validation:
  assumes "gulp_parallel [compileDesignFile, generateVendorScript] w = (Inr (), w1)"
    and "fst (validateFolder w1 (files w1) ''./components'') = Inr False"
  shows "validate w1 =
           (Inl (Error ''Package failed validation. See errors above.''),
            w1\<lparr>trace := trace w1 @ map Log (snd (validateFolder w1 (files w1) ''./components''))\<rparr>) \<and>
         build w = validate w1 \<and>
         filter isZip (trace (snd (build w))) = filter isZip (trace w)"
proof -
  have v: "validate w1 =
      (Inl (Error ''Package failed validation. See errors above.''),
       w1\<lparr>trace := trace w1 @ map Log (snd (validateFolder w1 (files w1) ''./components''))\<rparr>)"
    using assms(2) by (rule validate_false)
  have b: "build w = validate w1"
    using assms(1) by (simp add: build_def v)
  have "filter isZip (trace w1) = filter isZip (trace w)"
    using stage1_nozip [of w] assms(1) by simp
  moreover have "filter isZip (map Log ds) = []" for ds
    by (induction ds) simp_all
  ultimately show ?thesis by (simp add: b v)
qed

theorem build_stops_on_failed_validation_witness:
  "fst (build sample_world) = Inl (Error ''Package failed validation. See errors above.'') \<and>
   filter isZip (trace (snd (build sample_world))) = []"
proof -
  let ?w1 = "snd (gulp_parallel [compileDesignFile, generateVendorScript] sample_world)"
  have "fst (gulp_parallel [compileDesignFile, generateVendorScript] sample_world) = Inr ()"
    by code_simp
  then have s: "gulp_parallel [compileDesignFile, generateVendorScript] sample_world = (Inr (), ?w1)"
    by (metis prod.collapse)
  have f: "fst (validateFolder ?w1 (files ?w1) ''./components'') = Inr False"
    by code_simp
  note th = build_stops_on_failed_validation [OF s f]
  have "fst (build sample_world) = Inl (Error ''Package failed validation. See errors above.'')"
    using th by (metis fst_conv)
  moreover have "filter isZip (trace (snd (build sample_world))) = []"
    using th sample_paths(4) by (metis filter.simps(1))
  ultimately show ?thesis by (rule conjI)
qed

text \<open>
  Claim C7. When the entry file has been generated and its compilation reports an error,
  \<^verbatim>\<open>compileDesignFile\<close> prints the message and succeeds: it returns no error, writes no
  stylesheet, and a series or a parallel group it is part of goes on with the remaining
  tasks.
\<close>

theorem compileDesignFile_logs_compile_error:
  assumes "generateDesignFile w = (Inr (), w1)"
    and "files w1 (locate w1 ''./components/styles/design.scss'') = Some scss"
    and "sass w1 scss = Inl message"
  shows "compileDesignFile w =
           (Inr (), w1\<lparr>trace := trace w1 @ [ReadFile ''./components/styles/design.scss'', Log message]\<rparr>) \<and>
         gulp_series (compileDesignFile # ts) w =
           gulp_series ts (w1\<lparr>trace := trace w1 @ [ReadFile ''./components/styles/design.scss'', Log message]\<rparr>) \<and>
         gulp_parallel (compileDesignFile # ts) w =
           gulp_parallel ts (w1\<lparr>trace := trace w1 @ [ReadFile ''./components/styles/design.scss'', Log message]\<rparr>)"
proof -
  have run: "compileDesignFile w =
      (Inr (), w1\<lparr>trace := trace w1 @ [ReadFile ''./components/styles/design.scss'', Log message]\<rparr>)"
    using assms by (simp add: compileDesignFile_def readFileAsync_def emit_def)
  show ?thesis
    by (simp add: run split: prod.splits)
qed

theorem compileDesignFile_logs_compile_error_witness:
  "fst (compileDesignFile sample_world) = Inr () \<and>
   trace (snd (compileDesignFile sample_world)) =
     trace (snd (generateDesignFile sample_world)) @
     [ReadFile ''./components/styles/design.scss'',
      Log ''Error: File to import not found or unreadable: hero.'']"
proof -
  let ?w1 = "snd (generateDesignFile sample_world)"
  have "fst (generateDesignFile sample_world) = Inr ()"
    by code_simp
  then have g: "generateDesignFile sample_world = (Inr (), ?w1)"
    by (metis prod.collapse)
  have "files ?w1 (locate ?w1 ''./components/styles/design.scss'') \<noteq> None"
    by code_simp
  then obtain scss where f: "files ?w1 (locate ?w1 ''./components/styles/design.scss'') = Some scss"
    by blast
  have "sass ?w1 x = Inl ''Error: File to import not found or unreadable: hero.''" for x
    by code_simp
  then have s: "sass ?w1 scss = Inl ''Error: File to import not found or unreadable: hero.''" .
  show ?thesis
    using compileDesignFile_logs_compile_error [OF g f s] by simp
qed

text \<open>
  Claim C8. \<^verbatim>\<open>validateNoBail\<close> does not look at the verdict: replacing every verdict of the
  validator by any other leaves its outcome and the state it produces unchanged, and so for
  the whole run of \<^verbatim>\<open>watch\<close> over any changes. Whenever the validator returns a verdict,
  true or false, \<^verbatim>\<open>validateNoBail\<close> succeeds, and the diagnostics the validator printed are
  all it adds to the run.
\<close>

theorem validateNoBail_ignores_verdict:
  "validateNoBail (with_verdicts g w) =
     (fst (validateNoBail w), with_verdicts g (snd (validateNoBail w))) \<and>
   watch changes (with_verdicts g w) =
     (fst (watch changes w), with_verdicts g (snd (watch changes w))) \<and>
   (\<forall>b. fst (validateFolder w (files w) ''./components'') = Inr b \<longrightarrow>
      validateNoBail w =
        (Inr (), w\<lparr>trace := trace w @ map Log (snd (validateFolder w (files w) ''./components''))\<rparr>))"
proof -
  have "validateNoBail w =
      (Inr (), w\<lparr>trace := trace w @ map Log (snd (validateFolder w (files w) ''./components''))\<rparr>)"
    if "fst (validateFolder w (files w) ''./components'') = Inr b" for b
    using that
    by (cases "validateFolder w (files w) ''./components''")
       (simp add: validateNoBail_def componentsValidator_def)
  then show ?thesis
    by (simp add: validateNoBail_with_verdicts watch_def emit_with_verdicts
          watch_loop_with_verdicts [of "gulp_series [validateNoBail]", OF revalidate_with_verdicts]
          del: gulp_series.simps)
qed

theorem validateNoBail_ignores_verdict_witness:
  "validateNoBail (with_verdicts (\<lambda>b. True) sample_world) =
     (Inr (), with_verdicts (\<lambda>b. True)
        (sample_world\<lparr>trace := [Log ''components-definition.json: name is missing'']\<rparr>)) \<and>
   validateNoBail sample_world =
     (Inr (), sample_world\<lparr>trace := [Log ''components-definition.json: name is missing'']\<rparr>)"
proof -
  have v: "validateFolder sample_world (files sample_world) ''./components'' =
             (Inr False, [''components-definition.json: name is missing''])"
    by (simp add: sample_world_def)
  note th = validateNoBail_ignores_verdict [of "\<lambda>b. True" sample_world "[]"]
  from th have "fst (validateFolder sample_world (files sample_world) ''./components'') = Inr False \<longrightarrow>
      validateNoBail sample_world =
        (Inr (), sample_world\<lparr>trace := trace sample_world @
           map Log (snd (validateFolder sample_world (files sample_world) ''./components''))\<rparr>)"
    by blast
  then have n: "validateNoBail sample_world =
      (Inr (), sample_world\<lparr>trace := [Log ''components-definition.json: name is missing'']\<rparr>)"
    by (simp add: v sample_paths)
  from th have "validateNoBail (with_verdicts (\<lambda>b. True) sample_world) =
      (fst (validateNoBail sample_world), with_verdicts (\<lambda>b. True) (snd (validateNoBail sample_world)))"
    by blast
  then show ?thesis
    by (simp add: n)
qed

section \<open>The archive builder: claim\<close>

text \<open>
  Claim C6, as the code has it. For a manifest whose name is the string \<open>n\<close> (the manifest
  being among the paths \<^verbatim>\<open>gulp.src\<close> finds, and the destination writable),
  \<^verbatim>\<open>buildComponentSetZip\<close> hands exactly one archive to the destination \<open>dist\<close>, named \<open>n\<close>
  followed by \<open>.zip\<close>. Its entries are the paths that \<open>components/**/*\<close> matches and
  \<open>components/**/tms-timestamp\<close> does not: the paths below the components folder that have no
  segment starting with a dot and whose last segment is not the transient marker name. So
  every entry lies below the components folder and none is itself named \<open>tms-timestamp\<close>.
\<close>

theorem buildComponentSetZip_archive:
  assumes "manifest w = Inr (Some n)"
    and "''components/components-definition.json'' \<in> set (tree w)"
    and "\<not> denied w (locate w (path_join ''dist'' (n @ ''.zip'')))"
  shows "buildComponentSetZip w =
           (Inr (), emit (Zip ''dist'' (n @ ''.zip'') (filter archived (tree w))) w) \<and>
         (\<forall>p\<in>set (filter archived (tree w)).
            underComponents p \<and> last (split_sep p) \<noteq> ''tms-timestamp'')"
proof -
  have "''components/components-definition.json'' \<in> set (filter archived (tree w))"
    using assms(2) archived_manifest by simp
  then have ne: "filter archived (tree w) \<noteq> []"
    by (metis empty_iff empty_set)
  have "buildComponentSetZip w =
      (Inr (), emit (Zip ''dist'' (n @ ''.zip'') (filter archived (tree w))) w)"
    using assms(1,3) ne
    by (simp add: buildComponentSetZip_def gulp_src_components Let_def)
  then show ?thesis using archived_under by simp
qed

theorem buildComponentSetZip_archive_witness:
  "buildComponentSetZip sample_world =
     (Inr (), sample_world\<lparr>trace :=
        [Zip ''dist'' ''acme-widgets.zip''
           [''components/components-definition.json'', ''components/styles'',
            ''components/styles/design.css'']]\<rparr>)"
proof -
  have m: "manifest sample_world = Inr (Some ''acme-widgets'')"
    and t: "tree sample_world =
      [''components'', ''components/components-definition.json'', ''components/.gitkeep'',
       ''components/styles'', ''components/styles/design.css'',
       ''components/styles/tms-timestamp'', ''dist/old.zip'']"
    and d: "\<not> denied sample_world (locate sample_world (path_join ''dist'' (''acme-widgets'' @ ''.zip'')))"
    by (simp_all add: sample_world_def)
  have i: "''components/components-definition.json'' \<in> set (tree sample_world)"
    by (simp add: t)
  have f: "filter archived (tree sample_world) =
      [''components/components-definition.json'', ''components/styles'', ''components/styles/design.css'']"
    unfolding t by (simp add: archived_def hidden_def startsWith_def)
  show ?thesis
    using buildComponentSetZip_archive [OF m i d]
    by (simp add: f emit_def sample_paths)
qed

text \<open>
  The entries are not the paths below the components folder without those that contain the
  marker name: in the example a hidden file is left out of the archive, and a path below a
  folder that has the marker name is archived.
\<close>

theorem buildComponentSetZip_marker_counterexample:
  "trace (snd (buildComponentSetZip marker_world)) =
     [Zip ''dist'' ''acme-widgets.zip''
        [''components/components-definition.json'', ''components/tms-timestamp/notes.txt'']] \<and>
   filter (\<lambda>p. underComponents p \<and> \<not> hasMarker p) (tree marker_world) =
     [''components/components-definition.json'', ''components/.gitkeep'']"
  by code_simp

end
